theory Spec2Isabelle
  imports Complex_Main
begin

section \<open>SolveSquare: the solver of src/main.c\<close>

text \<open>
  The development embeds \<^verbatim>\<open>solve_square\<close> and \<^verbatim>\<open>solve_linear\<close> of
  \<^verbatim>\<open>src/main.c\<close>, and the part of \<^verbatim>\<open>main\<close> that calls them and selects the
  message to print.
\<close>

subsection \<open>Values of type double\<close>

text \<open>
  A C \<^verbatim>\<open>double\<close> is an IEEE 754 binary64 number: a finite value, one of the two
  zeros, one of the two infinities, or a NaN. \<open>Finite x\<close> is the finite double of value
  \<open>x\<close>, with \<open>Finite 0\<close> the positive zero; \<open>NegZero\<close> is the negative zero. One NaN
  stands for all of them: their sign and payload show nowhere but in the text that
  \<^verbatim>\<open>printf\<close> prints. The finite doubles are the values \<open>binary64\<close> describes: an
  integer below \<open>2 ^ 53\<close> in magnitude times a power of two from \<open>2 powi - 1074\<close> to
  \<open>2 powi 971\<close>. Every operation below returns such a value, a zero, an infinity or
  NaN.
\<close>

datatype double = Finite real | NegZero | PosInf | NegInf | NaN

definition binary64 :: "real \<Rightarrow> bool" where
  "binary64 x =
     (\<exists>m e :: int. \<bar>m\<bar> < 2 ^ 53 \<and> - 1074 \<le> e \<and> e \<le> 971 \<and> x = of_int m * 2 powi e)"

fun signbit :: "double \<Rightarrow> bool" where
  "signbit (Finite x) = (x < 0)"
| "signbit NegZero = True"
| "signbit PosInf = False"
| "signbit NegInf = True"
| "signbit NaN = False"

fun valof :: "double \<Rightarrow> real" where
  "valof (Finite x) = x"
| "valof _ = 0"

fun is_infinity :: "double \<Rightarrow> bool" where
  "is_infinity PosInf = True"
| "is_infinity NegInf = True"
| "is_infinity _ = False"

fun is_zero :: "double \<Rightarrow> bool" where
  "is_zero (Finite x) = (x = 0)"
| "is_zero NegZero = True"
| "is_zero _ = False"

definition signed_zero :: "bool \<Rightarrow> double" where
  "signed_zero s = (if s then NegZero else Finite 0)"

definition signed_infinity :: "bool \<Rightarrow> double" where
  "signed_infinity s = (if s then NegInf else PosInf)"

subsection \<open>Rounding\<close>

text \<open>
  The arithmetic of C on doubles computes the exact result and rounds it to the nearest
  double, a tie going to the double with the even significand (the default rounding
  mode, which the program never changes). \<open>rne\<close> rounds a real number to the nearest
  integer in this way. \<open>ulp_exponent x\<close> is the exponent of the last place of the doubles
  around \<open>x\<close>: 52 below the exponent of \<open>x\<close>, and never below \<open>- 1074\<close>, where the
  subnormal numbers are. \<open>round64\<close> rounds the magnitude of \<open>x\<close> to a multiple of that
  place; a result of \<open>2 powi 1024\<close> or more is an infinity (overflow), and a nonzero
  \<open>x\<close> that rounds to zero keeps its sign (underflow).
\<close>

definition rne :: "real \<Rightarrow> int" where
  "rne q =
     (let f = \<lfloor>q\<rfloor> in
      if q - of_int f < 1 / 2 then f
      else if 1 / 2 < q - of_int f then f + 1
      else if even f then f else f + 1)"

definition ulp_exponent :: "real \<Rightarrow> int" where
  "ulp_exponent x = max (\<lfloor>log 2 \<bar>x\<bar>\<rfloor> - 52) (- 1074)"

definition overflow_threshold :: real where
  "overflow_threshold = 2 powi 1024"

definition round64 :: "real \<Rightarrow> double" where
  "round64 x =
     (let e = ulp_exponent x;
          m = rne (\<bar>x\<bar> / 2 powi e);
          y = of_int m * 2 powi e
      in if m = 0 then signed_zero (x < 0)
         else if overflow_threshold \<le> y then signed_infinity (x < 0)
         else Finite (if x < 0 then - y else y))"

text \<open>
  The result of an operation whose exact result is \<open>x\<close>: rounded, unless it is zero; the
  sign of an exact zero is given by the operation.
\<close>

definition result :: "bool \<Rightarrow> real \<Rightarrow> double" where
  "result s x = (if x = 0 then signed_zero s else round64 x)"

subsection \<open>Arithmetic and comparisons\<close>

text \<open>
  The operators of C on doubles, by the rules of IEEE 754: NaN propagates; the invalid
  operations \<open>0 * \<infinity>\<close>, \<open>\<infinity> - \<infinity>\<close>, \<open>0 / 0\<close> and \<open>\<infinity> / \<infinity>\<close> give NaN; a division of a
  nonzero number by zero gives an infinity; an exact zero result has the sign that the
  operation prescribes (for a sum, negative only when both terms are negative zeros);
  every other result is the exact one, rounded. Every comparison with NaN is false, and
  the two zeros compare equal.
\<close>

instantiation double :: "{zero, plus, minus, uminus, times, inverse, ord}"
begin

definition zero_double :: double where
  "zero_double = Finite 0"

fun uminus_double :: "double \<Rightarrow> double" where
  "uminus_double (Finite x) = (if x = 0 then NegZero else Finite (- x))"
| "uminus_double NegZero = Finite 0"
| "uminus_double PosInf = NegInf"
| "uminus_double NegInf = PosInf"
| "uminus_double NaN = NaN"

definition plus_double :: "double \<Rightarrow> double \<Rightarrow> double" where
  "plus_double a b =
     (if a = NaN \<or> b = NaN then NaN
      else if is_infinity a then (if is_infinity b \<and> signbit a \<noteq> signbit b then NaN else a)
      else if is_infinity b then b
      else result (signbit a \<and> signbit b) (valof a + valof b))"

definition minus_double :: "double \<Rightarrow> double \<Rightarrow> double" where
  "minus_double a b = a + (- b)"

definition times_double :: "double \<Rightarrow> double \<Rightarrow> double" where
  "times_double a b =
     (if a = NaN \<or> b = NaN then NaN
      else if is_infinity a \<or> is_infinity b then
        (if is_zero a \<or> is_zero b then NaN else signed_infinity (signbit a \<noteq> signbit b))
      else result (signbit a \<noteq> signbit b) (valof a * valof b))"

definition divide_double :: "double \<Rightarrow> double \<Rightarrow> double" where
  "divide_double a b =
     (if a = NaN \<or> b = NaN then NaN
      else if is_infinity a then
        (if is_infinity b then NaN else signed_infinity (signbit a \<noteq> signbit b))
      else if is_infinity b then signed_zero (signbit a \<noteq> signbit b)
      else if is_zero b then
        (if is_zero a then NaN else signed_infinity (signbit a \<noteq> signbit b))
      else result (signbit a \<noteq> signbit b) (valof a / valof b))"

definition inverse_double :: "double \<Rightarrow> double" where
  "inverse_double a = divide (Finite 1) a"

fun less_double :: "double \<Rightarrow> double \<Rightarrow> bool" where
  "less_double NaN _ = False"
| "less_double _ NaN = False"
| "less_double PosInf _ = False"
| "less_double _ PosInf = True"
| "less_double _ NegInf = False"
| "less_double NegInf _ = True"
| "less_double a b = (valof a < valof b)"

fun less_eq_double :: "double \<Rightarrow> double \<Rightarrow> bool" where
  "less_eq_double NaN _ = False"
| "less_eq_double _ NaN = False"
| "less_eq_double _ PosInf = True"
| "less_eq_double PosInf _ = False"
| "less_eq_double NegInf _ = True"
| "less_eq_double _ NegInf = False"
| "less_eq_double a b = (valof a \<le> valof b)"

instance ..

end

text \<open>
  \<^verbatim>\<open>fabs\<close> and \<^verbatim>\<open>sqrt\<close> of \<^verbatim>\<open><math.h>\<close>. \<^verbatim>\<open>fabs\<close> clears the sign. The square root of
  a negative number is NaN, that of a zero is the same zero, and every other square root
  is the exact one, rounded.
\<close>

fun fabs :: "double \<Rightarrow> double" where
  "fabs (Finite x) = Finite \<bar>x\<bar>"
| "fabs NegZero = Finite 0"
| "fabs PosInf = PosInf"
| "fabs NegInf = PosInf"
| "fabs NaN = NaN"

fun sqrt_double :: "double \<Rightarrow> double" where
  "sqrt_double (Finite x) =
     (if x < 0 then NaN else result False (sqrt x))"
| "sqrt_double NegZero = NegZero"
| "sqrt_double PosInf = PosInf"
| "sqrt_double NegInf = NaN"
| "sqrt_double NaN = NaN"

subsection \<open>Equality up to the sign of a zero\<close>

text \<open>
  Two doubles have the same value when they are equal or both are zeros; this is the
  equality \<^verbatim>\<open>==\<close> of C on doubles that are not NaN.
\<close>

definition same_value :: "double \<Rightarrow> double \<Rightarrow> bool" where
  "same_value x y = (x = y \<or> (is_zero x \<and> is_zero y))"

subsection \<open>Constants\<close>

text \<open>
  Modelled from the spec: \<^verbatim>\<open>DBL_EPSILON\<close> is a macro of \<^verbatim>\<open><float.h>\<close>, which is not
  under src/. The spec names it the machine epsilon of double precision; for IEEE
  binary64 that is \<open>1 / 2 ^ 52\<close>.
\<close>

definition epsilon :: real where
  "epsilon = 1 / 2 ^ 52"

definition DBL_EPSILON :: double where
  "DBL_EPSILON = Finite epsilon"

text \<open>\<^verbatim>\<open>const int INFINITE_ROOTS = -1;\<close>\<close>

definition INFINITE_ROOTS :: int where
  "INFINITE_ROOTS = - 1"

subsection \<open>The store\<close>

text \<open>
  The solver returns its roots through the pointers \<^verbatim>\<open>x1\<close> and \<^verbatim>\<open>x2\<close>. A pointer is
  an address, the store maps every address to the double it holds, and a function that
  writes through a pointer takes the store and returns the updated one beside its result.
\<close>

type_synonym addr = nat

type_synonym store = "addr \<Rightarrow> double"

subsection \<open>solve\_linear and solve\_square\<close>

text \<open>
  \<^verbatim>\<open>int solve_linear(double b, double c, double* x)\<close>, lines 169 to 181.
\<close>

definition solve_linear :: "double \<Rightarrow> double \<Rightarrow> addr \<Rightarrow> store \<Rightarrow> int \<times> store" where
  "solve_linear b c x s =
     (if fabs b < DBL_EPSILON then
        (if fabs c < DBL_EPSILON then (INFINITE_ROOTS, s) else (0, s))
      else (1, s(x := - c / b)))"

text \<open>
  \<^verbatim>\<open>int solve_square(double a, double b, double c, double* x1, double* x2)\<close>, lines 136
  to 156. Line 142 of the source carries one closing parenthesis too many; the condition is
  read as \<^verbatim>\<open>(d < 0) && (fabs(d) > DBL_EPSILON)\<close>. The integer literals \<^verbatim>\<open>4\<close>, \<^verbatim>\<open>2\<close>
  and \<^verbatim>\<open>0\<close> are converted to double by C's usual arithmetic conversions.
\<close>

definition solve_square ::
  "double \<Rightarrow> double \<Rightarrow> double \<Rightarrow> addr \<Rightarrow> addr \<Rightarrow> store \<Rightarrow> int \<times> store" where
  "solve_square a b c x1 x2 s =
     (if fabs a < DBL_EPSILON then solve_linear b c x1 s
      else
        (let d = b * b - Finite 4 * a * c in
         if d < 0 \<and> fabs d > DBL_EPSILON then (0, s)
         else if fabs d < DBL_EPSILON then (1, s(x1 := - b / (Finite 2 * a)))
         else
           (let d = sqrt_double d;
                s = s(x1 := (- b - d) / (Finite 2 * a));
                s = s(x2 := (- b + d) / (Finite 2 * a))
            in (2, s))))"

subsection \<open>main\<close>

text \<open>
  What \<^verbatim>\<open>main\<close> reports, one constructor for each \<^verbatim>\<open>printf\<close> of lines 63 to 72; the
  roots are the contents of its local variables \<^verbatim>\<open>x1\<close> and \<^verbatim>\<open>x2\<close>.
\<close>

datatype report =
  InfiniteRoots
| NoRoots
| OneRoot double
| TwoRoots double double
| SomethingStrange

text \<open>
  Lines 61 to 72 of \<^verbatim>\<open>main\<close>, after the three coefficients have been read: the locals
  \<^verbatim>\<open>x1\<close> and \<^verbatim>\<open>x2\<close> live at two distinct addresses and start at zero.
\<close>

definition main_report :: "double \<Rightarrow> double \<Rightarrow> double \<Rightarrow> report" where
  "main_report a b c =
     (let x1 = (0::addr); x2 = (1::addr);
          s = (\<lambda>_. Finite 0);
          (roots_num, s) = solve_square a b c x1 x2 s
      in if roots_num = INFINITE_ROOTS then InfiniteRoots
         else if roots_num = 0 then NoRoots
         else if roots_num = 1 then OneRoot (s x1)
         else if roots_num = 2 then TwoRoots (s x1) (s x2)
         else SomethingStrange)"

section \<open>Properties of the arithmetic\<close>

subsection \<open>Rounding returns a double unchanged\<close>

text \<open>
  Rounding to an integer fixes the integers, is monotone and errs by one half at most.
  From this, \<open>round64\<close> returns every nonzero value of \<open>binary64\<close> unchanged.
\<close>

lemma rne_of_int [simp]: "rne (of_int n) = n"
  by (simp add: rne_def)

lemma rne_bounds: "\<lfloor>q\<rfloor> \<le> rne q" "rne q \<le> \<lfloor>q\<rfloor> + 1"
  by (simp_all add: rne_def Let_def)

lemma rne_le_int: "q \<le> of_int n \<Longrightarrow> rne q \<le> n"
proof -
  assume q: "q \<le> of_int n"
  show ?thesis
  proof (cases "q = of_int n")
    case True
    then show ?thesis by simp
  next
    case False
    with q have "q < of_int n" by simp
    then have "\<lfloor>q\<rfloor> < n" by (simp add: floor_less_iff)
    with rne_bounds(2) [of q] show ?thesis by linarith
  qed
qed

lemma rne_ge_int: "of_int n \<le> q \<Longrightarrow> n \<le> rne q"
proof -
  assume "of_int n \<le> q"
  then have "n \<le> \<lfloor>q\<rfloor>" by (simp add: le_floor_iff)
  with rne_bounds(1) [of q] show ?thesis by linarith
qed

lemma rne_mono: "q \<le> q' \<Longrightarrow> rne q \<le> rne q'"
proof -
  assume q: "q \<le> q'"
  then have f: "\<lfloor>q\<rfloor> \<le> \<lfloor>q'\<rfloor>" by (rule floor_mono)
  show ?thesis
  proof (cases "\<lfloor>q\<rfloor> = \<lfloor>q'\<rfloor>")
    case True
    with q show ?thesis
      by (auto simp add: rne_def Let_def)
  next
    case False
    with f have "\<lfloor>q\<rfloor> + 1 \<le> \<lfloor>q'\<rfloor>" by simp
    with rne_bounds(2) [of q] rne_bounds(1) [of q'] show ?thesis by linarith
  qed
qed


lemma pow2_less_iff [simp]: "(2::real) powi m < 2 powi n \<longleftrightarrow> m < n"
proof
  assume l: "(2::real) powi m < 2 powi n"
  show "m < n"
  proof (rule ccontr)
    assume "\<not> m < n"
    then have "n \<le> m" by simp
    then have "(2::real) powi n \<le> 2 powi m"
      by (rule power_int_increasing) simp
    with l show False by simp
  qed
next
  assume "m < n"
  then show "(2::real) powi m < 2 powi n"
    by (rule power_int_strict_increasing) simp
qed

lemma pow2_le_iff [simp]: "(2::real) powi m \<le> 2 powi n \<longleftrightarrow> m \<le> n"
  using pow2_less_iff [of n m] by (simp only: not_less [symmetric])

lemma pow2_add: "(2::real) powi (m + n) = 2 powi m * 2 powi n"
  by (rule power_int_add) simp

lemma pow2_diff: "(2::real) powi (m - n) = 2 powi m / 2 powi n"
  by (rule power_int_diff) simp

lemma pow2_of_int: "0 \<le> n \<Longrightarrow> (2::real) powi n = of_int (2 ^ nat n)"
  by (simp add: power_int_def)

lemma binade:
  assumes "0 < x"
  shows "\<lfloor>log 2 x\<rfloor> = k \<longleftrightarrow> 2 powi k \<le> x \<and> x < 2 powi (k + 1)"
proof -
  have "2 powr (of_int k) = (2::real) powi k" "2 powr (of_int k + 1) = (2::real) powi (k + 1)"
    using powr_real_of_int' [of 2 k] powr_real_of_int' [of 2 "k + 1"] by simp_all
  with floor_log_eq_powr_iff [of x 2 k] assms show ?thesis
    by simp
qed

lemma ulp_exponent_eq:
  assumes "2 powi k \<le> \<bar>x\<bar>" and "\<bar>x\<bar> < 2 powi (k + 1)"
  shows "ulp_exponent x = max (k - 52) (- 1074)"
proof -
  from assms(1) have "0 < \<bar>x\<bar>"
    using zero_less_power_int [of "2::real" k] by linarith
  from binade [OF this, of k] assms have "\<lfloor>log 2 \<bar>x\<bar>\<rfloor> = k"
    by simp
  then show ?thesis
    by (simp add: ulp_exponent_def)
qed

lemma ulp_exponent_binade:
  assumes "x \<noteq> 0"
  shows "2 powi \<lfloor>log 2 \<bar>x\<bar>\<rfloor> \<le> \<bar>x\<bar>" and "\<bar>x\<bar> < 2 powi (\<lfloor>log 2 \<bar>x\<bar>\<rfloor> + 1)"
  using binade [of "\<bar>x\<bar>" "\<lfloor>log 2 \<bar>x\<bar>\<rfloor>"] assms by simp_all

lemma round64_exact:
  assumes "binary64 x" and "x \<noteq> 0"
  shows "round64 x = Finite x"
proof -
  from assms(1) obtain m e :: int where m: "\<bar>m\<bar> < 2 ^ 53" and e: "- 1074 \<le> e" "e \<le> 971"
    and x: "x = of_int m * 2 powi e"
    unfolding binary64_def by blast
  from x assms(2) have m0: "m \<noteq> 0" by auto
  have ax: "\<bar>x\<bar> = of_int \<bar>m\<bar> * 2 powi e"
    by (simp add: x abs_mult)
  let ?L = "\<lfloor>log 2 \<bar>x\<bar>\<rfloor>"
  let ?E = "ulp_exponent x"
  from m have "real_of_int \<bar>m\<bar> < 2 ^ 53"
    by (metis of_int_less_numeral_power_cancel_iff)
  then have "\<bar>x\<bar> < 2 ^ 53 * 2 powi e"
    unfolding ax by (simp add: mult_strict_right_mono)
  also have "\<dots> = 2 powi (53 + e)"
    by (simp add: pow2_add)
  finally have lt: "\<bar>x\<bar> < 2 powi (53 + e)" .
  with ulp_exponent_binade(1) [OF assms(2)] have "(2::real) powi ?L < 2 powi (53 + e)"
    by linarith
  then have "?L < 53 + e" by simp
  with e have E: "?E \<le> e"
    by (simp add: ulp_exponent_def)
  then have d: "0 \<le> e - ?E" by simp
  have "\<bar>x\<bar> / 2 powi ?E = of_int \<bar>m\<bar> * 2 powi (e - ?E)"
    by (simp add: ax pow2_diff)
  also have "\<dots> = of_int (\<bar>m\<bar> * 2 ^ nat (e - ?E))"
    using d by (simp add: pow2_of_int)
  finally have q: "\<bar>x\<bar> / 2 powi ?E = of_int (\<bar>m\<bar> * 2 ^ nat (e - ?E))" .
  have r: "rne (\<bar>x\<bar> / 2 powi ?E) = \<bar>m\<bar> * 2 ^ nat (e - ?E)"
    unfolding q by (rule rne_of_int)
  have y: "of_int (\<bar>m\<bar> * 2 ^ nat (e - ?E)) * 2 powi ?E = \<bar>x\<bar>"
    using q by (simp add: field_simps)
  have nz: "\<bar>m\<bar> * 2 ^ nat (e - ?E) \<noteq> 0"
    using m0 by simp
  from e have "53 + e \<le> 1024" by simp
  then have "2 powi (53 + e) \<le> (2::real) powi 1024"
    by (simp only: pow2_le_iff)
  with lt have small: "\<not> overflow_threshold \<le> \<bar>x\<bar>"
    unfolding overflow_threshold_def by linarith
  show ?thesis
    unfolding round64_def Let_def r y using nz small assms(2)
    by (simp only: if_False abs_if split: if_splits) auto
qed

lemma binary64_of_int: "\<bar>m\<bar> < 2 ^ 53 \<Longrightarrow> binary64 (of_int m)"
  unfolding binary64_def by (rule exI [of _ m], rule exI [of _ 0]) simp

lemma binary64_numeral [simp]: "numeral n < (2 ^ 53 :: int) \<Longrightarrow> binary64 (numeral n)"
  using binary64_of_int [of "numeral n"] by simp

lemma binary64_neg_numeral [simp]: "numeral n < (2 ^ 53 :: int) \<Longrightarrow> binary64 (- numeral n)"
  using binary64_of_int [of "- numeral n"] by simp

lemma binary64_zero [simp]: "binary64 0"
  using binary64_of_int [of 0] by simp

lemma binary64_one [simp]: "binary64 1"
  using binary64_of_int [of 1] by simp

lemma binary64_neg_one [simp]: "binary64 (- 1)"
  using binary64_of_int [of "- 1"] by simp

lemma binary64_pow2: "- 1074 \<le> e \<Longrightarrow> e \<le> 1023 \<Longrightarrow> binary64 (2 powi e)"
proof (cases "e \<le> 971")
  case True
  assume "- 1074 \<le> e"
  with True show ?thesis
    unfolding binary64_def by (intro exI [of _ 1] exI [of _ e]) simp
next
  case False
  assume e: "e \<le> 1023"
  from False have p: "0 \<le> e - 971" by simp
  have "(2::real) powi e = 2 powi (e - 971) * 2 powi 971"
    using pow2_add [of "e - 971" 971] by simp
  also have "\<dots> = of_int (2 ^ nat (e - 971)) * 2 powi 971"
    using p by (simp only: pow2_of_int)
  finally have eq: "(2::real) powi e = of_int (2 ^ nat (e - 971)) * 2 powi 971" .
  from e have "nat (e - 971) < 53" by simp
  then have "(2::int) ^ nat (e - 971) < 2 ^ 53"
    by (simp only: power_strict_increasing_iff one_less_numeral_iff semiring_norm)
  then show ?thesis
    unfolding binary64_def
    by (intro exI [of _ "2 ^ nat (e - 971)"] exI [of _ 971]) (simp add: eq)
qed

lemma binary64_minus: "binary64 x \<Longrightarrow> binary64 (- x)"
  unfolding binary64_def
  by (elim exE, rule_tac x = "- m" in exI, rule_tac x = e in exI) simp

lemma binary64_abs: "binary64 x \<Longrightarrow> binary64 \<bar>x\<bar>"
  by (simp add: abs_if binary64_minus)

subsection \<open>The operators on finite doubles\<close>

lemma times_Finite:
  "Finite x * Finite y = result ((x < 0) \<noteq> (y < 0)) (x * y)"
  by (simp add: times_double_def)

lemma plus_Finite:
  "Finite x + Finite y = result (x < 0 \<and> y < 0) (x + y)"
  "NegZero + Finite y = result (y < 0) y"
  "Finite x + NegZero = result (x < 0) x"
  "NegZero + NegZero = NegZero"
  by (simp_all add: plus_double_def result_def signed_zero_def)

lemma minus_Finite:
  "Finite x - Finite y = result False (x - y)"
  "NegZero - Finite y = result True (- y)"
  by (auto simp add: minus_double_def plus_Finite result_def signed_zero_def)

lemma divide_Finite:
  "y \<noteq> 0 \<Longrightarrow> Finite x / Finite y = result ((x < 0) \<noteq> (y < 0)) (x / y)"
  "y \<noteq> 0 \<Longrightarrow> NegZero / Finite y = signed_zero (\<not> y < 0)"
  by (auto simp add: divide_double_def result_def)

lemma result_exact: "binary64 x \<Longrightarrow> result s x = (if x = 0 then signed_zero s else Finite x)"
  by (simp add: result_def round64_exact)

lemmas arith_Finite = times_Finite plus_Finite minus_Finite
  divide_Finite signed_zero_def signed_infinity_def zero_double_def result_exact

lemma b52: "binary64 (1 / 2 ^ 52)"
  using binary64_pow2 [of "- 52"] by (simp add: power_int_minus_divide)

subsection \<open>Rounding is monotone\<close>

text \<open>
  Across a change of exponent the rounded magnitudes are separated by the power of two
  between them, which is a double itself.
\<close>

lemma ulp_exponent_mono:
  assumes "0 < u" and "u \<le> v"
  shows "ulp_exponent u \<le> ulp_exponent v"
proof -
  from assms have "log 2 u \<le> log 2 v"
    by simp
  then have "\<lfloor>log 2 u\<rfloor> \<le> \<lfloor>log 2 v\<rfloor>"
    by (rule floor_mono)
  with assms show ?thesis
    by (simp add: ulp_exponent_def)
qed

lemma rounded_magnitude_mono:
  assumes "0 \<le> u" and "u \<le> v"
  shows "of_int (rne (u / 2 powi ulp_exponent u)) * 2 powi ulp_exponent u
       \<le> of_int (rne (v / 2 powi ulp_exponent v)) * (2::real) powi ulp_exponent v"
proof (cases "u = 0")
  case True
  have "0 \<le> v / 2 powi ulp_exponent v"
    using assms by simp
  then have "0 \<le> rne (v / 2 powi ulp_exponent v)"
    using rne_ge_int [of 0] by simp
  moreover have "rne 0 = 0"
    using rne_of_int [of 0] by simp
  ultimately show ?thesis
    using True by simp
next
  case False
  with assms have u: "0 < u" and v: "0 < v"
    by simp_all
  let ?Eu = "ulp_exponent u" and ?Ev = "ulp_exponent v"
  from ulp_exponent_mono [OF u assms(2)] have le: "?Eu \<le> ?Ev" .
  show ?thesis
  proof (cases "?Eu = ?Ev")
    case True
    from assms(2) have "u / 2 powi ?Ev \<le> v / 2 powi ?Ev"
      by (simp add: divide_right_mono)
    then have "rne (u / 2 powi ?Ev) \<le> rne (v / 2 powi ?Ev)"
      by (rule rne_mono)
    then have "real_of_int (rne (u / 2 powi ?Ev)) \<le> real_of_int (rne (v / 2 powi ?Ev))"
      by simp
    then show ?thesis
      unfolding True by (simp add: mult_right_mono)
  next
    case False
    with le have lt: "?Eu < ?Ev" by simp
    let ?Lu = "\<lfloor>log 2 u\<rfloor>" and ?Lv = "\<lfloor>log 2 v\<rfloor>"
    have Eu: "?Lu - 52 \<le> ?Eu" "- 1074 \<le> ?Eu"
      using u by (simp_all add: ulp_exponent_def)
    with lt have Ev: "?Ev = ?Lv - 52"
      using v by (simp add: ulp_exponent_def max_def split: if_splits)
    from u have bu: "u < 2 powi (?Lu + 1)"
      using ulp_exponent_binade(2) [of u] by simp
    from v have bv: "2 powi ?Lv \<le> v"
      using ulp_exponent_binade(1) [of v] by simp
    let ?B = "?Ev + 52"
    from Eu lt have "?Lu + 1 \<le> ?B" by simp
    then have "(2::real) powi (?Lu + 1) \<le> 2 powi ?B"
      by (simp only: pow2_le_iff)
    with bu have uB: "u \<le> 2 powi ?B" by linarith
    from Ev bv have vB: "2 powi ?B \<le> v" by simp
    \<comment> \<open>the rounded magnitude of v is at least the binade boundary\<close>
    have "of_int (2 ^ 52) = (2::real) powi 52"
      by simp
    have "2 powi ?B / 2 powi ?Ev \<le> v / 2 powi ?Ev"
      using vB by (simp add: divide_right_mono)
    moreover have "2 powi ?B / (2::real) powi ?Ev = of_int (2 ^ 52)"
      using pow2_diff [of ?B ?Ev] by simp
    ultimately have "of_int (2 ^ 52) \<le> v / 2 powi ?Ev"
      by simp
    then have "2 ^ 52 \<le> rne (v / 2 powi ?Ev)"
      by (rule rne_ge_int)
    then have "(2::real) ^ 52 \<le> of_int (rne (v / 2 powi ?Ev))"
      by (metis of_int_le_iff of_int_numeral of_int_power)
    then have a: "2 ^ 52 * 2 powi ?Ev \<le> of_int (rne (v / 2 powi ?Ev)) * (2::real) powi ?Ev"
      by (simp add: mult_right_mono)
    have b: "2 ^ 52 * 2 powi ?Ev = (2::real) powi ?B"
      using pow2_add [of 52 ?Ev] by (simp add: add.commute)
    from a have lower: "2 powi ?B \<le> of_int (rne (v / 2 powi ?Ev)) * (2::real) powi ?Ev"
      unfolding b .
    \<comment> \<open>the rounded magnitude of u is at most the binade boundary\<close>
    from lt have nn: "0 \<le> ?B - ?Eu" by simp
    have "u / 2 powi ?Eu \<le> 2 powi ?B / 2 powi ?Eu"
      using uB by (simp add: divide_right_mono)
    also have "\<dots> = 2 powi (?B - ?Eu)"
      by (simp add: pow2_diff)
    also have "\<dots> = of_int (2 ^ nat (?B - ?Eu))"
      using nn by (simp only: pow2_of_int)
    finally have "rne (u / 2 powi ?Eu) \<le> 2 ^ nat (?B - ?Eu)"
      by (rule rne_le_int)
    then have "real_of_int (rne (u / 2 powi ?Eu)) \<le> of_int (2 ^ nat (?B - ?Eu))"
      by (simp only: of_int_le_iff)
    also have "\<dots> = 2 powi (?B - ?Eu)"
      using nn by (simp only: pow2_of_int)
    finally have "of_int (rne (u / 2 powi ?Eu)) * 2 powi ?Eu \<le> 2 powi (?B - ?Eu) * (2::real) powi ?Eu"
      by (simp add: mult_right_mono)
    also have "\<dots> = 2 powi ?B"
      using pow2_add [of "?B - ?Eu" ?Eu] by simp
    finally have upper: "of_int (rne (u / 2 powi ?Eu)) * 2 powi ?Eu \<le> (2::real) powi ?B" .
    from upper lower show ?thesis
      by (rule order_trans)
  qed
qed

lemma ulp_exponent_abs [simp]: "ulp_exponent \<bar>x\<bar> = ulp_exponent x"
  by (simp add: ulp_exponent_def)

lemma ulp_exponent_minus [simp]: "ulp_exponent (- x) = ulp_exponent x"
  by (simp add: ulp_exponent_def)

lemma rne_nonneg: "0 \<le> q \<Longrightarrow> 0 \<le> rne q"
  using rne_ge_int [of 0 q] by simp

lemma round64_mono:
  assumes "x \<le> y"
  shows "round64 x \<le> round64 y"
proof -
  let ?M = "\<lambda>x. of_int (rne (\<bar>x\<bar> / 2 powi ulp_exponent x)) * (2::real) powi ulp_exponent x"
  have nn: "0 \<le> ?M x" "0 \<le> ?M y"
    by (simp_all add: rne_nonneg)
  have z: "rne (\<bar>x\<bar> / 2 powi ulp_exponent x) = 0 \<longleftrightarrow> ?M x = 0"
    "rne (\<bar>y\<bar> / 2 powi ulp_exponent y) = 0 \<longleftrightarrow> ?M y = 0"
    by simp_all
  have pos: "0 \<le> x \<Longrightarrow> ?M x \<le> ?M y"
    using rounded_magnitude_mono [of "\<bar>x\<bar>" "\<bar>y\<bar>"] assms by simp
  have neg: "y < 0 \<Longrightarrow> ?M y \<le> ?M x"
    using rounded_magnitude_mono [of "\<bar>y\<bar>" "\<bar>x\<bar>"] assms by simp
  show ?thesis
  proof (cases "0 \<le> x")
    case True
    with assms have y: "0 \<le> y" by simp
    from pos [OF True] show ?thesis
      using True y nn unfolding round64_def Let_def z
      by (auto simp add: signed_zero_def signed_infinity_def not_le)
  next
    case False
    then have x: "x < 0" by simp
    show ?thesis
    proof (cases "y < 0")
      case True
      from neg [OF True] show ?thesis
        using x True nn unfolding round64_def Let_def z
        by (auto simp add: signed_zero_def signed_infinity_def not_le)
    next
      case False
      then show ?thesis
        using x nn unfolding round64_def Let_def z
        by (auto simp add: signed_zero_def signed_infinity_def not_le)
    qed
  qed
qed

lemma round64_zero [simp]: "round64 0 = Finite 0"
  using rne_of_int [of 0] by (simp add: round64_def signed_zero_def)

lemma round64_not_NaN [simp]: "round64 x \<noteq> NaN"
  by (simp add: round64_def Let_def signed_zero_def signed_infinity_def)

lemma round64_nonneg: "0 \<le> x \<Longrightarrow> Finite 0 \<le> round64 x"
  using round64_mono [of 0 x] by simp

lemma round64_nonpos: "x \<le> 0 \<Longrightarrow> round64 x \<le> Finite 0"
  using round64_mono [of x 0] by simp

lemma signed_zero_le [simp]:
  "signed_zero s \<le> d \<longleftrightarrow> Finite 0 \<le> d"
  "d \<le> signed_zero s \<longleftrightarrow> d \<le> Finite 0"
  by (cases d; simp add: signed_zero_def)+

lemma NegZero_le [simp]:
  "NegZero \<le> d \<longleftrightarrow> Finite 0 \<le> d"
  "d \<le> NegZero \<longleftrightarrow> d \<le> Finite 0"
  by (cases d; simp)+

lemma result_mono: "x \<le> x' \<Longrightarrow> result s x \<le> result s' x'"
  using round64_mono [of x x'] round64_nonneg [of x'] round64_nonpos [of x]
  by (auto simp add: result_def)

lemma result_not_NaN [simp]: "result s x \<noteq> NaN"
  by (simp add: result_def signed_zero_def)

lemma le_PosInf [simp]: "d \<le> PosInf \<longleftrightarrow> d \<noteq> NaN"
  by (cases d) simp_all

lemma NegInf_le [simp]: "NegInf \<le> d \<longleftrightarrow> d \<noteq> NaN"
  by (cases d) simp_all

lemma plus_mono_right:
  assumes "y \<le> y'" and "u + y \<noteq> NaN" and "u + y' \<noteq> NaN"
  shows "u + y \<le> u + y'"
  using assms
  by (cases u; cases y; cases y') (simp_all add: plus_double_def result_mono)

subsection \<open>Sums and quotients are monotone\<close>

lemma result_nonneg: "0 \<le> x \<Longrightarrow> Finite 0 \<le> result s x"
  using result_mono [of 0 x False s] by (simp add: result_def signed_zero_def)

lemma divide_mono_pos:
  assumes "t \<le> t'" and "Finite 0 < q" and "t / q \<noteq> NaN" and "t' / q \<noteq> NaN"
  shows "t / q \<le> t' / q"
  using assms
  by (cases t; cases t'; cases q)
    (simp_all add: divide_double_def result_mono divide_right_mono signed_infinity_def
      divide_nonpos_pos divide_nonneg_pos)

lemma divide_mono_neg:
  assumes "t \<le> t'" and "q < Finite 0" and "t / q \<noteq> NaN" and "t' / q \<noteq> NaN"
  shows "t' / q \<le> t / q"
  using assms
  by (cases t; cases t'; cases q)
    (simp_all add: divide_double_def result_mono divide_right_mono_neg signed_infinity_def
      divide_nonpos_neg divide_nonneg_neg)

lemma uminus_le_self: "Finite 0 \<le> s \<Longrightarrow> - s \<le> s"
  by (cases s) simp_all

lemma sqrt_double_nonneg: "sqrt_double d \<noteq> NaN \<Longrightarrow> Finite 0 \<le> sqrt_double d"
  by (cases d) (simp_all add: result_nonneg split: if_splits)

lemma NaN_absorbs [simp]:
  "NaN + x = NaN" "x + NaN = NaN" "NaN - x = NaN" "x - NaN = NaN"
  "NaN * x = NaN" "x * NaN = NaN" "NaN / x = NaN" "x / NaN = NaN"
  by (simp_all add: plus_double_def minus_double_def times_double_def divide_double_def)

lemma Finite_le_pos: "Finite c \<le> d \<Longrightarrow> 0 < c \<Longrightarrow> Finite 0 < d"
  by (cases d) simp_all

lemma Finite_ge_neg: "d \<le> Finite c \<Longrightarrow> c < 0 \<Longrightarrow> d < Finite 0"
  by (cases d) simp_all

lemma b51: "binary64 (2 * epsilon)"
  using binary64_pow2 [of "- 51"] by (simp add: power_int_minus_divide epsilon_def)

lemma twice_pos:
  assumes "Finite 0 < a" and "\<not> fabs a < DBL_EPSILON"
  shows "Finite 0 < Finite 2 * a"
proof (cases a)
  case (Finite x)
  with assms have x: "epsilon \<le> x"
    by (simp add: DBL_EPSILON_def)
  have e: "0 < epsilon" by (simp add: epsilon_def)
  from x have "round64 (2 * epsilon) \<le> round64 (2 * x)"
    by (intro round64_mono) simp
  then have "Finite (2 * epsilon) \<le> round64 (2 * x)"
    using e by (simp add: round64_exact [OF b51])
  then have "Finite 0 < round64 (2 * x)"
    using e by (intro Finite_le_pos [of "2 * epsilon"]) simp_all
  with Finite x e show ?thesis
    by (simp add: times_double_def result_def)
qed (use assms in \<open>simp_all add: times_double_def signed_infinity_def\<close>)

lemma twice_neg:
  assumes "a < Finite 0" and "\<not> fabs a < DBL_EPSILON"
  shows "Finite 2 * a < Finite 0"
proof (cases a)
  case (Finite x)
  with assms have x: "x \<le> - epsilon"
    by (simp add: DBL_EPSILON_def)
  have e: "0 < epsilon" by (simp add: epsilon_def)
  from x have "round64 (2 * x) \<le> round64 (- (2 * epsilon))"
    by (intro round64_mono) simp
  then have "round64 (2 * x) \<le> Finite (- (2 * epsilon))"
    using e by (simp add: round64_exact [OF binary64_minus [OF b51]])
  then have "round64 (2 * x) < Finite 0"
    using e by (intro Finite_ge_neg [of _ "- (2 * epsilon)"]) simp_all
  with Finite x e show ?thesis
    by (simp add: times_double_def result_def)
qed (use assms in \<open>simp_all add: times_double_def signed_infinity_def\<close>)

lemma main_report_TwoRoots:
  assumes "main_report a b c = TwoRoots r1 r2"
  shows "\<not> fabs a < DBL_EPSILON"
    and "r1 = (- b - sqrt_double (b * b - Finite 4 * a * c)) / (Finite 2 * a)"
    and "r2 = (- b + sqrt_double (b * b - Finite 4 * a * c)) / (Finite 2 * a)"
  using assms
  by (auto simp add: main_report_def solve_square_def solve_linear_def INFINITE_ROOTS_def Let_def
      split: if_splits)

subsection \<open>Comparisons\<close>

lemma less_le_double: "x \<le> y \<Longrightarrow> \<not> y < x" for x y :: double
  by (cases x; cases y) simp_all

lemma less_asym_double: "x < y \<Longrightarrow> \<not> y < x" for x y :: double
  by (cases x; cases y) simp_all

lemma fabs_band: "d < Finite 0 \<Longrightarrow> - Finite e < d \<Longrightarrow> 0 < e \<Longrightarrow> fabs d < Finite e"
  by (cases d) (simp_all split: if_splits)

lemmas solver_defs = main_report_def solve_square_def solve_linear_def DBL_EPSILON_def
  epsilon_def INFINITE_ROOTS_def


subsection \<open>Rounding at a known exponent, underflow and overflow\<close>

text \<open>
  Three runs of the solver in which a result is not exact: the square \<open>134217729 * 134217729 =
  2 ^ 54 + 2 ^ 28 + 1\<close> loses its last bit, the quotient \<open>- (1 / 2 ^ 1074) / 4\<close> underflows to the
  negative zero, and the quotient \<open>- (2 ^ 1023) / (1 / 2 ^ 52)\<close> overflows to the negative
  infinity.
\<close>

lemma round64_binade:
  assumes "2 powi k \<le> \<bar>x\<bar>" and "\<bar>x\<bar> < 2 powi (k + 1)"
  shows "round64 x =
     (let e = max (k - 52) (- 1074);
          m = rne (\<bar>x\<bar> / 2 powi e);
          y = of_int m * 2 powi e
      in if m = 0 then signed_zero (x < 0)
         else if overflow_threshold \<le> y then signed_infinity (x < 0)
         else Finite (if x < 0 then - y else y))"
  by (simp add: round64_def ulp_exponent_eq [OF assms])

lemma binary64_scaled:
  "\<bar>m\<bar> < 2 ^ 53 \<Longrightarrow> - 1074 \<le> e \<Longrightarrow> e \<le> 971 \<Longrightarrow> binary64 (of_int m * 2 powi e)"
  unfolding binary64_def by blast

lemma round_square: "round64 18014398777917441 = Finite 18014398777917440"
proof -
  have "round64 18014398777917441 =
     (let e = max (54 - 52) (- 1074);
          m = rne (\<bar>18014398777917441\<bar> / 2 powi e);
          y = of_int m * 2 powi e
      in if m = 0 then signed_zero (18014398777917441 < (0::real))
         else if overflow_threshold \<le> y then signed_infinity (18014398777917441 < (0::real))
         else Finite (if 18014398777917441 < (0::real) then - y else y))"
    by (rule round64_binade) simp_all
  moreover have "rne (18014398777917441 / 4) = 4503599694479360"
    by (simp add: rne_def)
  moreover have "(18014398777917440::real) < overflow_threshold"
    unfolding overflow_threshold_def
    using power_int_strict_increasing [of 55 1024 "2::real"] by simp
  ultimately show ?thesis
    by simp
qed

lemma result_square: "result s 18014398777917441 = Finite 18014398777917440"
  by (simp add: result_def round_square)

lemma rounding_instance:
  "solve_square (Finite 1) (Finite 134217729) (Finite 4503599694479360) 0 1 (\<lambda>_. Finite 0)
   = (1, (\<lambda>_. Finite 0)(0 := Finite (- 67108864.5)))"
proof -
  have 1: "binary64 18014398777917440"
    using binary64_scaled [of 4503599694479360 2] by simp
  have 2: "binary64 (- (134217729 / 2))"
    using binary64_scaled [of "- 134217729" "- 1"] by simp
  show ?thesis
    using 1 2
    by (simp add: solve_square_def DBL_EPSILON_def epsilon_def arith_Finite result_square)
qed

lemma round64_underflow:
  assumes "\<bar>x\<bar> < 2 powi (- 1075)"
  shows "round64 x = signed_zero (x < 0)"
proof (cases "x = 0")
  case True
  then show ?thesis by (simp add: signed_zero_def)
next
  case False
  let ?L = "\<lfloor>log 2 \<bar>x\<bar>\<rfloor>"
  from ulp_exponent_binade(1) [OF False] assms have "(2::real) powi ?L < 2 powi (- 1075)"
    by linarith
  then have "?L < - 1075"
    by (simp only: pow2_less_iff)
  then have "?L - 52 \<le> - 1074"
    by linarith
  then have E: "ulp_exponent x = - 1074"
    unfolding ulp_exponent_def by (rule max_absorb2)
  have "(2::real) powi (- 1075) = 2 powi (- 1074) / 2"
    using pow2_diff [of "- 1074" 1] by simp
  with assms have h: "\<bar>x\<bar> / 2 powi (- 1074) < 1 / 2"
    by (simp add: field_simps del: power_int_numeral_neg_numeral)
  have n: "0 \<le> \<bar>x\<bar> / 2 powi (- 1074)"
    by simp
  from h n have "\<lfloor>\<bar>x\<bar> / 2 powi (- 1074)\<rfloor> = 0"
    by (simp only: floor_eq_iff) simp
  with h have "rne (\<bar>x\<bar> / 2 powi (- 1074)) = 0"
    unfolding rne_def Let_def by simp
  then show ?thesis
    unfolding round64_def Let_def E by simp
qed

lemma round64_overflow:
  assumes "overflow_threshold \<le> \<bar>x\<bar>"
  shows "round64 x = signed_infinity (x < 0)"
proof -
  from assms have x: "2 powi 1024 \<le> \<bar>x\<bar>"
    by (simp only: overflow_threshold_def)
  then have nz: "x \<noteq> 0"
    using zero_less_power_int [of "2::real" 1024] by auto
  let ?L = "\<lfloor>log 2 \<bar>x\<bar>\<rfloor>"
  let ?E = "ulp_exponent x"
  from ulp_exponent_binade(2) [OF nz] x have "(2::real) powi 1024 < 2 powi (?L + 1)"
    by linarith
  then have "1024 < ?L + 1"
    by (simp only: pow2_less_iff)
  then have L: "1024 \<le> ?L"
    by linarith
  then have "- 1074 \<le> ?L - 52"
    by linarith
  then have E: "?E = ?L - 52"
    unfolding ulp_exponent_def by (rule max_absorb1)
  have "2 powi ?L / 2 powi ?E \<le> \<bar>x\<bar> / 2 powi ?E"
    using ulp_exponent_binade(1) [OF nz] by (simp add: divide_right_mono)
  moreover have "2 powi ?L / (2::real) powi ?E = of_int (2 ^ 52)"
    using pow2_diff [of ?L ?E] by (simp add: E)
  ultimately have "of_int (2 ^ 52) \<le> \<bar>x\<bar> / 2 powi ?E"
    by simp
  then have m: "2 ^ 52 \<le> rne (\<bar>x\<bar> / 2 powi ?E)"
    by (rule rne_ge_int)
  then have "(2::real) ^ 52 \<le> of_int (rne (\<bar>x\<bar> / 2 powi ?E))"
    by (metis of_int_le_iff of_int_numeral of_int_power)
  then have "2 ^ 52 * 2 powi ?E \<le> of_int (rne (\<bar>x\<bar> / 2 powi ?E)) * (2::real) powi ?E"
    by (simp add: mult_right_mono)
  moreover have "2 ^ 52 * 2 powi ?E = (2::real) powi ?L"
    using pow2_add [of 52 ?E] by (simp add: E)
  moreover from L have "(2::real) powi 1024 \<le> 2 powi ?L"
    by (simp only: pow2_le_iff)
  ultimately have "overflow_threshold \<le> of_int (rne (\<bar>x\<bar> / 2 powi ?E)) * (2::real) powi ?E"
    unfolding overflow_threshold_def by linarith
  moreover from m have "rne (\<bar>x\<bar> / 2 powi ?E) \<noteq> 0"
    by simp
  ultimately show ?thesis
    unfolding round64_def Let_def by simp
qed

lemma underflow_instance: "- Finite (1 / 2 ^ 1074) / Finite 4 = NegZero"
proof -
  have "\<bar>- (1 / 2 ^ 1074) / (4::real)\<bar> < 2 powi (- 1075)"
    by (simp add: power_int_minus_divide)
  from round64_underflow [OF this] show ?thesis
    by (simp add: divide_double_def result_def signed_zero_def)
qed

lemma overflow_instance: "- Finite (2 ^ 1023) / Finite (1 / 2 ^ 52) = NegInf"
proof -
  have "overflow_threshold \<le> \<bar>- (2 ^ 1023) / (1 / 2 ^ 52 :: real)\<bar>"
    by (simp add: overflow_threshold_def)
  from round64_overflow [OF this] show ?thesis
    by (simp add: divide_double_def result_def signed_infinity_def)
qed

subsection \<open>Negation\<close>

text \<open>
  Negation is exact and rounding is symmetric, so that negating the operands of a product
  or a quotient negates the result or leaves it unchanged. For a sum this holds up to the
  sign of a zero result: \<open>1 + (- 1)\<close> and \<open>(- 1) + 1\<close> are both the positive zero.
\<close>

lemma uminus_uminus [simp]: "- (- d) = d" for d :: double
  by (cases d) simp_all

lemma signbit_uminus: "d \<noteq> NaN \<Longrightarrow> signbit (- d) = (\<not> signbit d)"
  by (cases d) auto

lemma valof_uminus [simp]: "valof (- d) = - valof d"
  by (cases d) simp_all

lemma is_infinity_uminus [simp]: "is_infinity (- d) = is_infinity d"
  by (cases d) simp_all

lemma is_zero_uminus [simp]: "is_zero (- d) = is_zero d"
  by (cases d) simp_all

lemma uminus_eq_NaN [simp]: "- d = NaN \<longleftrightarrow> d = NaN"
  by (cases d) simp_all

lemma fabs_uminus [simp]: "fabs (- d) = fabs d"
  by (cases d) simp_all

lemma uminus_signed_zero [simp]: "- signed_zero s = signed_zero (\<not> s)"
  by (simp add: signed_zero_def)

lemma uminus_signed_infinity [simp]: "- signed_infinity s = signed_infinity (\<not> s)"
  by (simp add: signed_infinity_def)





lemma divide_uminus_uminus: "(- x) / (- y) = x / y" for x y :: double
  by (auto simp add: divide_double_def signbit_uminus)


lemma same_value_refl [simp]: "same_value x x"
  by (simp add: same_value_def)

lemma is_zero_signed_zero [simp]: "is_zero (signed_zero s)"
  by (simp add: signed_zero_def)









subsection \<open>The rounding error\<close>






section \<open>Properties of the solver\<close>

subsection \<open>The quadratic branch\<close>

text \<open>
  C1. For coefficients with \<open>fabs a \<ge> DBL_EPSILON\<close>, solve\_square computes the discriminant
  \<open>d = b * b - 4 * a * c\<close> in the arithmetic of doubles and returns: 0 (no roots) when
  \<open>d < 0\<close> and \<open>fabs d > DBL_EPSILON\<close>; 1 with \<open>- b / (2 * a)\<close> in \<open>*x1\<close> when
  \<open>fabs d < DBL_EPSILON\<close>; and otherwise 2 with \<open>(- b - sqrt d) / (2 * a)\<close> in \<open>*x1\<close> and
  \<open>(- b + sqrt d) / (2 * a)\<close> in \<open>*x2\<close>. In particular a negative discriminant above
  \<open>- DBL_EPSILON\<close> gives one root, not none. The discriminant and the roots are the rounded
  results of the operations of the source, in its order.
\<close>

theorem discriminant_cases:
  assumes "DBL_EPSILON \<le> fabs a"
  shows "(b * b - Finite 4 * a * c < 0 \<and> DBL_EPSILON < fabs (b * b - Finite 4 * a * c) \<longrightarrow>
           solve_square a b c x1 x2 s = (0, s))
       \<and> (fabs (b * b - Finite 4 * a * c) < DBL_EPSILON \<longrightarrow>
           solve_square a b c x1 x2 s = (1, s(x1 := - b / (Finite 2 * a))))
       \<and> (\<not> (b * b - Finite 4 * a * c < 0 \<and> DBL_EPSILON < fabs (b * b - Finite 4 * a * c))
            \<and> \<not> fabs (b * b - Finite 4 * a * c) < DBL_EPSILON \<longrightarrow>
           solve_square a b c x1 x2 s =
             (2, s(x1 := (- b - sqrt_double (b * b - Finite 4 * a * c)) / (Finite 2 * a),
                   x2 := (- b + sqrt_double (b * b - Finite 4 * a * c)) / (Finite 2 * a))))
       \<and> (b * b - Finite 4 * a * c < 0 \<and> - DBL_EPSILON < b * b - Finite 4 * a * c \<longrightarrow>
           fst (solve_square a b c x1 x2 s) = 1)"
proof -
  let ?d = "b * b - Finite 4 * a * c"
  from assms have a: "\<not> fabs a < DBL_EPSILON"
    by (rule less_le_double)
  have band: "fabs ?d < DBL_EPSILON" if "?d < 0" "- DBL_EPSILON < ?d"
    using that unfolding DBL_EPSILON_def zero_double_def
    by (intro fabs_band) (simp_all add: epsilon_def)
  have excl: "\<not> DBL_EPSILON < fabs ?d" if "fabs ?d < DBL_EPSILON"
    using that by (rule less_asym_double)
  show ?thesis
    using a band excl by (auto simp add: solve_square_def Let_def)
qed

text \<open>
  The theorem at \<open>a = 1\<close>, once for each case: \<open>(1, 0, 1)\<close> with \<open>d = - 4\<close>,
  \<open>(1, - 2, 1)\<close> with \<open>d = 0\<close>, \<open>(1, 0, - 1)\<close> with \<open>d = 4\<close>, and \<open>(1, 0, 1 / 2 ^ 56)\<close> with
  the negative discriminant \<open>- 1 / 2 ^ 54\<close> inside the band. At
  \<open>(1, 134217729, 4503599694479360)\<close> the exact discriminant is 1, the square of \<open>b\<close> is
  rounded, the discriminant computed is 0, and one root is returned.
\<close>

theorem discriminant_cases_witness:
  "DBL_EPSILON \<le> fabs (Finite 1)
   \<and> solve_square (Finite 1) (Finite 0) (Finite 1) 0 1 (\<lambda>_. Finite 0) = (0, \<lambda>_. Finite 0)
   \<and> solve_square (Finite 1) (Finite (- 2)) (Finite 1) 0 1 (\<lambda>_. Finite 0) =
       (1, (\<lambda>_. Finite 0)(0 := Finite 1))
   \<and> solve_square (Finite 1) (Finite 0) (Finite (- 1)) 0 1 (\<lambda>_. Finite 0) =
       (2, (\<lambda>_. Finite 0)(0 := Finite (- 1), 1 := Finite 1))
   \<and> fst (solve_square (Finite 1) (Finite 0) (Finite (1 / 2 ^ 56)) 0 1 (\<lambda>_. Finite 0)) = 1
   \<and> Finite 134217729 * Finite 134217729 - Finite 4 * Finite 1 * Finite 4503599694479360
       = Finite 0
   \<and> solve_square (Finite 1) (Finite 134217729) (Finite 4503599694479360) 0 1 (\<lambda>_. Finite 0) =
       (1, (\<lambda>_. Finite 0)(0 := Finite (- 67108864.5)))"
proof -
  have e: "DBL_EPSILON \<le> fabs (Finite 1)"
    by (simp add: DBL_EPSILON_def epsilon_def)
  note d = discriminant_cases [OF e, where ?x1.0 = 0 and ?x2.0 = 1 and s = "\<lambda>_. Finite 0"]
  have b54: "binary64 (1 / 2 ^ 54)" "binary64 (- (1 / 2 ^ 54))"
    using binary64_pow2 [of "- 54"] binary64_minus [OF binary64_pow2 [of "- 54"]]
    by (simp_all add: power_int_minus_divide)
  have big: "binary64 18014398777917440" "binary64 (- (134217729 / 2))"
    using binary64_scaled [of 4503599694479360 2] binary64_scaled [of "- 134217729" "- 1"]
    by simp_all
  have "solve_square (Finite 1) (Finite 0) (Finite 1) 0 1 (\<lambda>_. Finite 0) = (0, \<lambda>_. Finite 0)"
    using d [of "Finite 0" "Finite 1"]
    by (simp add: DBL_EPSILON_def epsilon_def arith_Finite)
  moreover have "solve_square (Finite 1) (Finite (- 2)) (Finite 1) 0 1 (\<lambda>_. Finite 0) =
       (1, (\<lambda>_. Finite 0)(0 := Finite 1))"
    using d [of "Finite (- 2)" "Finite 1"]
    by (simp add: DBL_EPSILON_def epsilon_def arith_Finite)
  moreover have "solve_square (Finite 1) (Finite 0) (Finite (- 1)) 0 1 (\<lambda>_. Finite 0) =
       (2, (\<lambda>_. Finite 0)(0 := Finite (- 1), 1 := Finite 1))"
    using d [of "Finite 0" "Finite (- 1)"]
    by (simp add: DBL_EPSILON_def epsilon_def arith_Finite)
  moreover have
    "fst (solve_square (Finite 1) (Finite 0) (Finite (1 / 2 ^ 56)) 0 1 (\<lambda>_. Finite 0)) = 1"
    using d [of "Finite 0" "Finite (1 / 2 ^ 56)"] b54
    by (simp add: DBL_EPSILON_def epsilon_def arith_Finite)
  moreover have z: "Finite 134217729 * Finite 134217729
       - Finite 4 * Finite 1 * Finite 4503599694479360 = Finite 0"
    using big by (simp add: arith_Finite result_square)
  moreover have "solve_square (Finite 1) (Finite 134217729) (Finite 4503599694479360) 0 1
       (\<lambda>_. Finite 0) = (1, (\<lambda>_. Finite 0)(0 := Finite (- 67108864.5)))"
    using d [of "Finite 134217729" "Finite 4503599694479360"] big
    by (simp add: DBL_EPSILON_def epsilon_def arith_Finite result_square)
  ultimately show ?thesis
    using e by simp
qed

subsection \<open>The linear fallback\<close>

text \<open>
  C2. For coefficients with \<open>fabs a < DBL_EPSILON\<close>, solve\_square returns exactly what
  solve\_linear returns on \<open>b\<close> and \<open>c\<close>, which is: INFINITE\_ROOTS when
  \<open>fabs b < DBL_EPSILON\<close> and \<open>fabs c < DBL_EPSILON\<close>; 0 (no roots) when
  \<open>fabs b < DBL_EPSILON\<close> and \<open>fabs c \<ge> DBL_EPSILON\<close>; and 1 with the quotient \<open>- c / b\<close> of
  doubles in \<open>*x1\<close> when \<open>fabs b \<ge> DBL_EPSILON\<close>.
\<close>

theorem linear_fallback:
  assumes "fabs a < DBL_EPSILON"
  shows "solve_square a b c x1 x2 s = solve_linear b c x1 s
       \<and> (fabs b < DBL_EPSILON \<and> fabs c < DBL_EPSILON \<longrightarrow>
            solve_linear b c x1 s = (INFINITE_ROOTS, s))
       \<and> (fabs b < DBL_EPSILON \<and> DBL_EPSILON \<le> fabs c \<longrightarrow>
            solve_linear b c x1 s = (0, s))
       \<and> (DBL_EPSILON \<le> fabs b \<longrightarrow>
            solve_linear b c x1 s = (1, s(x1 := - c / b)))"
  using assms less_le_double [of DBL_EPSILON "fabs b"] less_le_double [of DBL_EPSILON "fabs c"]
  by (auto simp add: solve_square_def solve_linear_def)

text \<open>
  The theorem at \<open>a = 0\<close>, once for each case: \<open>(0, 0, 0)\<close>, \<open>(0, 0, 5)\<close> and \<open>(0, 2, - 4)\<close>;
  then at \<open>(0, 4, 1 / 2 ^ 1074)\<close>, where the quotient underflows to the negative zero, and at
  \<open>(0, 1 / 2 ^ 52, 2 ^ 1023)\<close>, where it overflows to the negative infinity.
\<close>

theorem linear_fallback_witness:
  "fabs (Finite 0) < DBL_EPSILON
   \<and> solve_square (Finite 0) (Finite 0) (Finite 0) 0 1 (\<lambda>_. Finite 0) =
       (INFINITE_ROOTS, \<lambda>_. Finite 0)
   \<and> solve_square (Finite 0) (Finite 0) (Finite 5) 0 1 (\<lambda>_. Finite 0) = (0, \<lambda>_. Finite 0)
   \<and> solve_square (Finite 0) (Finite 2) (Finite (- 4)) 0 1 (\<lambda>_. Finite 0) =
       (1, (\<lambda>_. Finite 0)(0 := Finite 2))
   \<and> solve_square (Finite 0) (Finite 4) (Finite (1 / 2 ^ 1074)) 0 1 (\<lambda>_. Finite 0) =
       (1, (\<lambda>_. Finite 0)(0 := NegZero))
   \<and> solve_square (Finite 0) (Finite (1 / 2 ^ 52)) (Finite (2 ^ 1023)) 0 1 (\<lambda>_. Finite 0) =
       (1, (\<lambda>_. Finite 0)(0 := NegInf))"
proof -
  have e: "fabs (Finite 0) < DBL_EPSILON"
    by (simp add: DBL_EPSILON_def epsilon_def)
  note l = linear_fallback [OF e, where ?x1.0 = 0 and ?x2.0 = 1 and s = "\<lambda>_. Finite 0"]
  have "solve_square (Finite 0) (Finite 0) (Finite 0) 0 1 (\<lambda>_. Finite 0) =
     (INFINITE_ROOTS, \<lambda>_. Finite 0)"
    using l [of "Finite 0" "Finite 0"] by (simp add: DBL_EPSILON_def epsilon_def)
  moreover have
    "solve_square (Finite 0) (Finite 0) (Finite 5) 0 1 (\<lambda>_. Finite 0) = (0, \<lambda>_. Finite 0)"
    using l [of "Finite 0" "Finite 5"] by (simp add: DBL_EPSILON_def epsilon_def)
  moreover have "solve_square (Finite 0) (Finite 2) (Finite (- 4)) 0 1 (\<lambda>_. Finite 0) =
       (1, (\<lambda>_. Finite 0)(0 := Finite 2))"
    using l [of "Finite 2" "Finite (- 4)"]
    by (simp add: DBL_EPSILON_def epsilon_def arith_Finite)
  moreover have "solve_square (Finite 0) (Finite 4) (Finite (1 / 2 ^ 1074)) 0 1 (\<lambda>_. Finite 0) =
       (1, (\<lambda>_. Finite 0)(0 := NegZero))"
    using l [of "Finite 4" "Finite (1 / 2 ^ 1074)"] underflow_instance
    by (simp add: DBL_EPSILON_def epsilon_def)
  moreover have "solve_square (Finite 0) (Finite (1 / 2 ^ 52)) (Finite (2 ^ 1023)) 0 1
       (\<lambda>_. Finite 0) = (1, (\<lambda>_. Finite 0)(0 := NegInf))"
    using l [of "Finite (1 / 2 ^ 52)" "Finite (2 ^ 1023)"] overflow_instance
    by (simp add: DBL_EPSILON_def epsilon_def)
  ultimately show ?thesis
    using e by simp
qed

subsection \<open>The worked examples\<close>

text \<open>
  C4. The six example invocations of the specification: \<open>(1, 0, -1)\<close> gives the two roots
  \<open>-1\<close> and \<open>1\<close>; \<open>(1, -2, 1)\<close> gives the one root \<open>1\<close>; \<open>(1, 0, 1)\<close> has no roots;
  \<open>(0, 2, -4)\<close> gives the one root \<open>2\<close> through the linear fallback; \<open>(0, 0, 5)\<close> has no
  roots; \<open>(0, 0, 0)\<close> has infinitely many.
\<close>

theorem examples:
  "main_report (Finite 1) (Finite 0) (Finite (- 1)) = TwoRoots (Finite (- 1)) (Finite 1)
   \<and> main_report (Finite 1) (Finite (- 2)) (Finite 1) = OneRoot (Finite 1)
   \<and> main_report (Finite 1) (Finite 0) (Finite 1) = NoRoots
   \<and> main_report (Finite 0) (Finite 2) (Finite (- 4)) = OneRoot (Finite 2)
   \<and> main_report (Finite 0) (Finite 0) (Finite 5) = NoRoots
   \<and> main_report (Finite 0) (Finite 0) (Finite 0) = InfiniteRoots"
  by (simp add: main_report_def solve_square_def solve_linear_def DBL_EPSILON_def
      epsilon_def INFINITE_ROOTS_def arith_Finite)

subsection \<open>The order of the two roots\<close>

text \<open>
  C3 (amended). The claim that the first of two roots is never larger than the second
  holds for a positive leading coefficient only. For all coefficients, when two roots
  \<open>r1\<close> and \<open>r2\<close> are reported and neither is NaN: if \<open>a > 0\<close> then \<open>r1 \<le> r2\<close>, and if
  \<open>a < 0\<close> then \<open>r2 \<le> r1\<close>. The order of the roots follows the sign of \<open>a\<close>, because both
  numerators are divided by \<open>2 * a\<close>; rounding, underflow and overflow keep the order.
\<close>

theorem roots_order:
  assumes "main_report a b c = TwoRoots r1 r2" and "r1 \<noteq> NaN" and "r2 \<noteq> NaN"
  shows "(Finite 0 < a \<longrightarrow> r1 \<le> r2) \<and> (a < Finite 0 \<longrightarrow> r2 \<le> r1)"
proof -
  let ?s = "sqrt_double (b * b - Finite 4 * a * c)"
  let ?q = "Finite 2 * a"
  note r = main_report_TwoRoots [OF assms(1)]
  from assms(2) r(2) have t1: "- b - ?s \<noteq> NaN"
    by auto
  from assms(3) r(3) have t2: "- b + ?s \<noteq> NaN"
    by auto
  from t2 have "?s \<noteq> NaN"
    by auto
  then have "- ?s \<le> ?s"
    by (intro uminus_le_self sqrt_double_nonneg)
  with t1 t2 have t: "- b - ?s \<le> - b + ?s"
    unfolding minus_double_def by (intro plus_mono_right)
  show ?thesis
  proof (intro conjI impI)
    assume "Finite 0 < a"
    then have "Finite 0 < ?q"
      using r(1) by (rule twice_pos)
    with t show "r1 \<le> r2"
      unfolding r(2,3) using assms(2,3) r(2,3) by (intro divide_mono_pos) simp_all
  next
    assume "a < Finite 0"
    then have "?q < Finite 0"
      using r(1) by (rule twice_neg)
    with t show "r2 \<le> r1"
      unfolding r(2,3) using assms(2,3) r(2,3) by (intro divide_mono_neg) simp_all
  qed
qed

text \<open>The theorem at \<open>(1, 0, - 1)\<close>, where \<open>a > 0\<close>, and at \<open>(- 1, 0, 1)\<close>, where \<open>a < 0\<close>.\<close>

theorem roots_order_witness:
  "main_report (Finite 1) (Finite 0) (Finite (- 1)) = TwoRoots (Finite (- 1)) (Finite 1)
   \<and> Finite 0 < Finite 1 \<and> Finite (- 1) \<le> Finite 1
   \<and> main_report (Finite (- 1)) (Finite 0) (Finite 1) = TwoRoots (Finite 1) (Finite (- 1))
   \<and> Finite (- 1) < Finite 0"
proof -
  have t: "main_report (Finite 1) (Finite 0) (Finite (- 1)) = TwoRoots (Finite (- 1)) (Finite 1)"
    and t': "main_report (Finite (- 1)) (Finite 0) (Finite 1) = TwoRoots (Finite 1) (Finite (- 1))"
    by (simp_all add: solver_defs arith_Finite)
  from roots_order [OF t] roots_order [OF t'] have "Finite (- 1) \<le> Finite 1"
    by simp
  with t t' show ?thesis
    by simp
qed

text \<open>
  C3 as stated fails at \<open>(- 1, 0, 1)\<close>: the discriminant is \<open>4\<close>, the first root is
  \<open>(- 0 - 2) / (- 2) = 1\<close> and the second is \<open>(- 0 + 2) / (- 2) = - 1\<close>.
\<close>

theorem roots_order_counterexample:
  "main_report (Finite (- 1)) (Finite 0) (Finite 1) = TwoRoots (Finite 1) (Finite (- 1))
   \<and> \<not> Finite 1 \<le> Finite (- 1)"
  by (simp add: solver_defs arith_Finite)

subsection \<open>The discriminant on the boundary of the band\<close>

text \<open>
  C5. The claim that every argument of \<^verbatim>\<open>sqrt\<close> is strictly positive, and every result
  well defined, fails on one discriminant: \<open>d = - DBL_EPSILON\<close>. There \<open>d < 0\<close> holds but
  \<open>fabs d > DBL_EPSILON\<close> does not, so the first guard lets \<open>d\<close> pass; \<open>fabs d < DBL_EPSILON\<close>
  does not hold either, so the last branch takes the square root of a negative number. The
  coefficients \<open>(1, 0, 1 / 2 ^ 54)\<close> produce this discriminant exactly, and the program
  reports two roots that are both NaN.
\<close>

theorem sqrt_of_negative_discriminant:
  "Finite 0 * Finite 0 - Finite 4 * Finite 1 * Finite (1 / 2 ^ 54) = Finite (- epsilon)
   \<and> sqrt_double (Finite (- epsilon)) = NaN
   \<and> main_report (Finite 1) (Finite 0) (Finite (1 / 2 ^ 54)) = TwoRoots NaN NaN"
  using b52 binary64_minus [OF b52] by (simp add: solver_defs arith_Finite)

subsection \<open>Scaling the coefficients\<close>



subsection \<open>Substituting the roots\<close>




subsection \<open>Independence of the store\<close>

text \<open>
  C8. solve\_square is a function of its three coefficients: the integer it returns, and
  the roots it writes, do not depend on the contents of the store nor on the addresses it
  is given for the roots, as long as these two are distinct. Two invocations with equal
  coefficients return the same integer; when that is 1 the values left in \<open>*x1\<close> are equal,
  and when it is 2 the values left in \<open>*x1\<close> and in \<open>*x2\<close> are.
\<close>

theorem store_independence:
  assumes "x1 \<noteq> x2" and "y1 \<noteq> y2"
  shows "fst (solve_square a b c x1 x2 s) = fst (solve_square a b c y1 y2 t)
       \<and> (fst (solve_square a b c x1 x2 s) = 1 \<longrightarrow>
            snd (solve_square a b c x1 x2 s) x1 = snd (solve_square a b c y1 y2 t) y1)
       \<and> (fst (solve_square a b c x1 x2 s) = 2 \<longrightarrow>
            snd (solve_square a b c x1 x2 s) x1 = snd (solve_square a b c y1 y2 t) y1
            \<and> snd (solve_square a b c x1 x2 s) x2 = snd (solve_square a b c y1 y2 t) y2)"
  using assms
  by (auto simp add: solve_square_def solve_linear_def INFINITE_ROOTS_def Let_def)

text \<open>
  The theorem at \<open>(1, 0, - 1)\<close>, called on two stores with different contents and different
  addresses for the roots.
\<close>

theorem store_independence_witness:
  "(0::addr) \<noteq> 1 \<and> (5::addr) \<noteq> 3
   \<and> fst (solve_square (Finite 1) (Finite 0) (Finite (- 1)) 0 1 (\<lambda>_. Finite 0)) = 2
   \<and> fst (solve_square (Finite 1) (Finite 0) (Finite (- 1)) 5 3 (\<lambda>_. NaN)) = 2
   \<and> snd (solve_square (Finite 1) (Finite 0) (Finite (- 1)) 5 3 (\<lambda>_. NaN)) 5
       = snd (solve_square (Finite 1) (Finite 0) (Finite (- 1)) 0 1 (\<lambda>_. Finite 0)) 0
   \<and> snd (solve_square (Finite 1) (Finite 0) (Finite (- 1)) 5 3 (\<lambda>_. NaN)) 3
       = snd (solve_square (Finite 1) (Finite 0) (Finite (- 1)) 0 1 (\<lambda>_. Finite 0)) 1"
proof -
  have n: "(0::addr) \<noteq> 1" and m: "(5::addr) \<noteq> 3"
    by simp_all
  have 2: "fst (solve_square (Finite 1) (Finite 0) (Finite (- 1)) 0 1 (\<lambda>_. Finite 0)) = 2"
    by (simp add: solver_defs arith_Finite)
  from store_independence [OF n m, of "Finite 1" "Finite 0" "Finite (- 1)" "\<lambda>_. Finite 0" "\<lambda>_. NaN"] 2
  show ?thesis
    using n m by simp
qed

subsection \<open>The frame of the output parameters\<close>

text \<open>
  C9. For distinct pointers \<open>x1\<close> and \<open>x2\<close>: when solve\_square returns 0 or
  INFINITE\_ROOTS the store is unchanged, so neither \<open>*x1\<close> nor \<open>*x2\<close> is written; when it
  returns 1 the store changes at \<open>x1\<close> at most and \<open>*x2\<close> keeps its value; and \<open>*x2\<close>
  changes only when the result is 2.
\<close>

theorem output_frame:
  assumes "x1 \<noteq> x2"
  shows "(fst (solve_square a b c x1 x2 s) = 0 \<or> fst (solve_square a b c x1 x2 s) = INFINITE_ROOTS
            \<longrightarrow> snd (solve_square a b c x1 x2 s) = s)
       \<and> (fst (solve_square a b c x1 x2 s) = 1
            \<longrightarrow> snd (solve_square a b c x1 x2 s) x2 = s x2
              \<and> (\<exists>v. snd (solve_square a b c x1 x2 s) = s(x1 := v)))
       \<and> (snd (solve_square a b c x1 x2 s) x2 \<noteq> s x2
            \<longrightarrow> fst (solve_square a b c x1 x2 s) = 2)"
  using assms
  by (auto simp add: solve_square_def solve_linear_def INFINITE_ROOTS_def Let_def)

text \<open>
  The theorem on a store that holds \<open>7\<close> everywhere, at \<open>(1, 0, 1)\<close> returning 0, at
  \<open>(0, 0, 0)\<close> returning INFINITE\_ROOTS, at \<open>(1, - 2, 1)\<close> returning 1 and at
  \<open>(1, 0, - 1)\<close>, where \<open>*x2\<close> changes.
\<close>

theorem output_frame_witness:
  "(0::addr) \<noteq> 1
   \<and> fst (solve_square (Finite 1) (Finite 0) (Finite 1) 0 1 (\<lambda>_. Finite 7)) = 0
   \<and> snd (solve_square (Finite 1) (Finite 0) (Finite 1) 0 1 (\<lambda>_. Finite 7)) = (\<lambda>_. Finite 7)
   \<and> fst (solve_square (Finite 0) (Finite 0) (Finite 0) 0 1 (\<lambda>_. Finite 7)) = INFINITE_ROOTS
   \<and> snd (solve_square (Finite 0) (Finite 0) (Finite 0) 0 1 (\<lambda>_. Finite 7)) = (\<lambda>_. Finite 7)
   \<and> fst (solve_square (Finite 1) (Finite (- 2)) (Finite 1) 0 1 (\<lambda>_. Finite 7)) = 1
   \<and> snd (solve_square (Finite 1) (Finite (- 2)) (Finite 1) 0 1 (\<lambda>_. Finite 7)) 1 = Finite 7
   \<and> snd (solve_square (Finite 1) (Finite 0) (Finite (- 1)) 0 1 (\<lambda>_. Finite 7)) 1 \<noteq> Finite 7
   \<and> fst (solve_square (Finite 1) (Finite 0) (Finite (- 1)) 0 1 (\<lambda>_. Finite 7)) = 2"
proof -
  have n: "(0::addr) \<noteq> 1"
    by simp
  note f = output_frame [OF n, where s = "\<lambda>_. Finite 7"]
  have 0: "fst (solve_square (Finite 1) (Finite 0) (Finite 1) 0 1 (\<lambda>_. Finite 7)) = 0"
    and i: "fst (solve_square (Finite 0) (Finite 0) (Finite 0) 0 1 (\<lambda>_. Finite 7)) = INFINITE_ROOTS"
    and 1: "fst (solve_square (Finite 1) (Finite (- 2)) (Finite 1) 0 1 (\<lambda>_. Finite 7)) = 1"
    and 2: "snd (solve_square (Finite 1) (Finite 0) (Finite (- 1)) 0 1 (\<lambda>_. Finite 7)) 1 \<noteq> Finite 7"
    by (simp_all add: solver_defs arith_Finite)
  from f [of "Finite 1" "Finite 0" "Finite 1"] 0
  have "snd (solve_square (Finite 1) (Finite 0) (Finite 1) 0 1 (\<lambda>_. Finite 7)) = (\<lambda>_. Finite 7)"
    by blast
  moreover from f [of "Finite 0" "Finite 0" "Finite 0"] i
  have "snd (solve_square (Finite 0) (Finite 0) (Finite 0) 0 1 (\<lambda>_. Finite 7)) = (\<lambda>_. Finite 7)"
    by blast
  moreover from f [of "Finite 1" "Finite (- 2)" "Finite 1"] 1
  have "snd (solve_square (Finite 1) (Finite (- 2)) (Finite 1) 0 1 (\<lambda>_. Finite 7)) 1 = Finite 7"
    by blast
  moreover from f [of "Finite 1" "Finite 0" "Finite (- 1)"] 2
  have "fst (solve_square (Finite 1) (Finite 0) (Finite (- 1)) 0 1 (\<lambda>_. Finite 7)) = 2"
    by blast
  ultimately show ?thesis
    using n 0 i 1 2 by blast
qed

subsection \<open>The integers returned\<close>

text \<open>
  C10. For every triple of doubles, infinities and NaN included, the integer returned by
  solve\_square is one of \<open>- 1\<close> (INFINITE\_ROOTS), 0, 1 and 2; so the last branch of
  \<^verbatim>\<open>main\<close>, which reports that something strange happened, is never taken.
\<close>

theorem return_codes:
  "fst (solve_square a b c x1 x2 s) \<in> {- 1, 0, 1, 2}
   \<and> INFINITE_ROOTS = - 1
   \<and> main_report a b c \<noteq> SomethingStrange"
  by (simp add: main_report_def solve_square_def solve_linear_def INFINITE_ROOTS_def Let_def)

end
